theory Spec2Isabelle
  imports Complex_Main "HOL-Library.Sublist"
begin

section \<open>Tokenizer\<close>

text \<open>
  The two source files, \<^verbatim>\<open>main.py\<close> and \<^verbatim>\<open>main_noannotate.py\<close>, share the
  tokenizer, the parser and the evaluator word for word; they differ in the function
  table and in what they do with the parsed tree.

  A Python string is modelled as a \<^typ>\<open>string\<close>, a one-character string as a
  \<^typ>\<open>char\<close>. The module-level sets \<^verbatim>\<open>letters\<close> and \<^verbatim>\<open>numbers\<close>:
\<close>

definition letters :: "char set" where
  "letters = set ''abcdefghijklmnopqrstuvwxyz''"

definition numbers :: "char set" where
  "numbers = set ''0123456789.''"

datatype TokenType = LPAREN | RPAREN | LCURLY | RCURLY | NUMBER | IDENT | OPERATOR

text \<open>\<^verbatim>\<open>class Token\<close>: the fields \<^verbatim>\<open>type\<close> and \<^verbatim>\<open>value\<close>.\<close>

datatype token = Token (tok_type: TokenType) (tok_value: string)

text \<open>
  Every way the three stages can raise, by the Python exception and the place that
  raises it:
  \<^item> \<open>SyntaxError_unknown_character\<close>: \<^verbatim>\<open>raise SyntaxError("unknown character: " + char)\<close>
    in \<^verbatim>\<open>tokenize\<close> (the specification's \<^verbatim>\<open>LexError{char}\<close>);
  \<^item> \<open>SyntaxError_unexpected_token\<close>: \<^verbatim>\<open>raise SyntaxError("unexpected token: " + str(tok))\<close>
    in \<^verbatim>\<open>parse\<close> (\<^verbatim>\<open>UnexpectedTokenError{token}\<close>);
  \<^item> \<open>SyntaxError_unknown_operator\<close>: \<^verbatim>\<open>raise SyntaxError("unknown operator: " + op)\<close>
    in \<^verbatim>\<open>eval_node\<close> (\<^verbatim>\<open>UnknownOperatorError{op}\<close>);
  \<^item> \<open>NameError_unknown_function\<close>: \<^verbatim>\<open>raise NameError("unknown function: " + fn_name)\<close>
    (\<^verbatim>\<open>UnknownFunctionError{name}\<close>);
  \<^item> \<open>ValueError_float\<close>: \<^verbatim>\<open>float(tok.value)\<close> on a literal that is not a number
    (\<^verbatim>\<open>NumberFormatError{literal}\<close>);
  \<^item> \<open>KeyError\<close>: \<^verbatim>\<open>variables[node.value]\<close> on an unbound name
    (\<^verbatim>\<open>UndefinedVariableError{name}\<close>);
  \<^item> \<open>ZeroDivisionError\<close>: \<^verbatim>\<open>left / right\<close> with a zero divisor
    (\<^verbatim>\<open>DivisionByZeroError\<close>);
  \<^item> \<open>IndexError\<close>: an index out of range, \<^verbatim>\<open>tokens[0]\<close>, \<^verbatim>\<open>code[0]\<close> or
    \<^verbatim>\<open>inp[0]\<close> on an empty sequence; no code catches or converts it;
  \<^item> \<open>LibraryError\<close>: what the \<^verbatim>\<open>math\<close> module or \<^verbatim>\<open>**\<close> raises.
\<close>

datatype lib_error = LibValueError | LibOverflowError | LibZeroDivisionError

datatype error =
    SyntaxError_unknown_character char
  | SyntaxError_unexpected_token token
  | SyntaxError_unknown_operator string
  | NameError_unknown_function string
  | ValueError_float string
  | KeyError string
  | ZeroDivisionError
  | IndexError
  | LibraryError lib_error

text \<open>
  \<^verbatim>\<open>get_ident\<close>: the loop reads \<^verbatim>\<open>code[0]\<close> before it tests the length, so an
  empty \<^verbatim>\<open>code\<close> raises; the early return inside the loop is what keeps a run that
  reaches the end of the text from doing so.
\<close>

fun get_ident_loop :: "string \<Rightarrow> string \<Rightarrow> error + string \<times> string" where
  "get_ident_loop out [] = Inl IndexError"
| "get_ident_loop out (c # code) =
     (if c \<in> letters then
        (if code = [] then Inr (out @ [c], code) else get_ident_loop (out @ [c]) code)
      else Inr (out, c # code))"

definition get_ident :: "string \<Rightarrow> error + string \<times> string" where
  "get_ident code = get_ident_loop [] code"

fun get_num_loop :: "string \<Rightarrow> string \<Rightarrow> error + string \<times> string" where
  "get_num_loop out [] = Inl IndexError"
| "get_num_loop out (c # code) =
     (if c \<in> numbers then
        (if code = [] then Inr (out @ [c], code) else get_num_loop (out @ [c]) code)
      else Inr (out, c # code))"

definition get_num :: "string \<Rightarrow> error + string \<times> string" where
  "get_num code = get_num_loop [] code"

lemma get_ident_loop_length:
  "get_ident_loop out code = Inr (ident, code') \<Longrightarrow> length code' \<le> length code"
  by (induction out code rule: get_ident_loop.induct) (auto split: if_splits)

lemma get_num_loop_length:
  "get_num_loop out code = Inr (num, code') \<Longrightarrow> length code' \<le> length code"
  by (induction out code rule: get_num_loop.induct) (auto split: if_splits)

lemma get_ident_shorter:
  "c \<in> letters \<Longrightarrow> get_ident (c # code) = Inr (ident, code') \<Longrightarrow> length code' \<le> length code"
  by (auto simp: get_ident_def split: if_splits dest: get_ident_loop_length)

lemma get_num_shorter:
  "c \<in> numbers \<Longrightarrow> get_num (c # code) = Inr (num, code') \<Longrightarrow> length code' \<le> length code"
  by (auto simp: get_num_def split: if_splits dest: get_num_loop_length)

text \<open>
  \<^verbatim>\<open>tokenize\<close>: the \<^verbatim>\<open>while len(code) > 0\<close> loop, with the list \<^verbatim>\<open>tokens\<close> it
  appends to as an accumulator. A raise leaves the loop with the error alone.
\<close>

function tokenize_loop :: "token list \<Rightarrow> string \<Rightarrow> error + token list" where
  "tokenize_loop tokens [] = Inr tokens"
| "tokenize_loop tokens (char # code) =
     (if char = CHR ''('' then tokenize_loop (tokens @ [Token LPAREN ''(''] ) code
      else if char = CHR '')'' then tokenize_loop (tokens @ [Token RPAREN '')'']) code
      else if char = CHR ''{'' then tokenize_loop (tokens @ [Token LCURLY ''{'']) code
      else if char = CHR ''}'' then tokenize_loop (tokens @ [Token RCURLY ''}'']) code
      else if char = CHR ''+'' then tokenize_loop (tokens @ [Token OPERATOR ''+'']) code
      else if char = CHR ''-'' then tokenize_loop (tokens @ [Token OPERATOR ''-'']) code
      else if char = CHR ''*'' then tokenize_loop (tokens @ [Token OPERATOR ''*'']) code
      else if char = CHR ''/'' then tokenize_loop (tokens @ [Token OPERATOR ''/'']) code
      else if char = CHR ''='' then tokenize_loop (tokens @ [Token OPERATOR ''='']) code
      else if char = CHR ''^'' then tokenize_loop (tokens @ [Token OPERATOR ''^'']) code
      else if char = CHR '' '' then tokenize_loop tokens code
      else if char \<in> letters then
        (case get_ident (char # code) of
           Inl e \<Rightarrow> Inl e
         | Inr (ident, code') \<Rightarrow> tokenize_loop (tokens @ [Token IDENT ident]) code')
      else if char \<in> numbers then
        (case get_num (char # code) of
           Inl e \<Rightarrow> Inl e
         | Inr (num, code') \<Rightarrow> tokenize_loop (tokens @ [Token NUMBER num]) code')
      else Inl (SyntaxError_unknown_character char))"
  by pat_completeness auto
termination
proof (relation "measure (\<lambda>(tokens, code). length code)")
qed (auto dest: get_ident_shorter get_num_shorter simp: less_Suc_eq_le)

definition tokenize :: "string \<Rightarrow> error + token list" where
  "tokenize code = tokenize_loop [] code"

text \<open>
  The characters some branch of the loop takes: the ten one-character tokens, the
  space, and the members of \<^verbatim>\<open>letters\<close> and \<^verbatim>\<open>numbers\<close>. Every other character
  reaches the final \<^verbatim>\<open>else\<close>.
\<close>

definition single_chars :: "char set" where
  "single_chars = set ''(){}+-*/=^''"

definition accepted_chars :: "char set" where
  "accepted_chars = single_chars \<union> {CHR '' ''} \<union> letters \<union> numbers"

section \<open>Parser\<close>

text \<open>
  Numbers are modelled as \<^typ>\<open>real\<close>: the model has no rounding, no infinities and
  no NaN, and a Python \<^verbatim>\<open>int\<close> bound to a variable is the real of the same value.
  What the claims below say about values (\<open>20.0\<close>, a divisor that is zero) concerns
  small integers, on which float64 arithmetic is exact.

  \<^verbatim>\<open>float(tok.value)\<close>, the builtin conversion, on the literals the tokenizer can
  produce, which hold characters of \<^verbatim>\<open>numbers\<close> only: Python accepts digits with at
  most one dot and at least one digit (\<^verbatim>\<open>"12"\<close>, \<^verbatim>\<open>"1."\<close>, \<^verbatim>\<open>".5"\<close>, \<^verbatim>\<open>"1.5"\<close>)
  and raises ValueError on the rest (\<^verbatim>\<open>"."\<close>, \<^verbatim>\<open>"1.2.3"\<close>). A literal with any other
  character (a sign, an exponent, an underscore) is outside what is modelled and is
  reported as a failed conversion.
\<close>

definition digit_value :: "char \<Rightarrow> nat" where
  "digit_value c = of_char c - 48"

definition digits_value :: "string \<Rightarrow> nat" where
  "digits_value ds = foldl (\<lambda>acc c. 10 * acc + digit_value c) 0 ds"

definition py_float :: "string \<Rightarrow> real option" where
  "py_float lit =
     (let whole = takeWhile (\<lambda>c. c \<noteq> CHR ''.'') lit;
          rest = dropWhile (\<lambda>c. c \<noteq> CHR ''.'') lit;
          frac = tl rest
      in if \<not> set lit \<subseteq> numbers then None
         else if CHR ''.'' \<in> set frac then None
         else if whole = [] \<and> frac = [] then None
         else Some (real (digits_value whole) + real (digits_value frac) / 10 ^ length frac))"

text \<open>
  \<^verbatim>\<open>class Node\<close> carries a \<^verbatim>\<open>NodeType\<close> and a payload whose shape depends on it:
  a float, a name, a triple \<^verbatim>\<open>(op, left, right)\<close> or a pair \<^verbatim>\<open>(fn_name, params)\<close>.
\<close>

datatype node =
    Node_NUMBER real
  | Node_VARIABLE string
  | Node_EXPR string node node
  | Node_CALL string "node list"

text \<open>
  \<^verbatim>\<open>parse\<close>. The two \<^verbatim>\<open>while\<close> loops are \<open>parse_operands\<close> (the group after
  \<^verbatim>\<open>(\<close>, with the tree built so far) and \<open>parse_params\<close> (the arguments after
  \<^verbatim>\<open>{ name\<close>, with the list built so far). Every read of \<^verbatim>\<open>tokens[0]\<close> on an empty
  list is an IndexError. The operand loop takes whatever token is not \<^verbatim>\<open>RPAREN\<close> as an
  operator and keeps its \<^verbatim>\<open>value\<close>; the call branch takes whatever token follows
  \<^verbatim>\<open>{\<close> as the function name: neither checks the token's type.
\<close>

function parse :: "token list \<Rightarrow> error + token list \<times> node"
  and parse_operands :: "node \<Rightarrow> token list \<Rightarrow> error + token list \<times> node"
  and parse_params :: "node list \<Rightarrow> token list \<Rightarrow> error + token list \<times> node list"
where
  "parse [] = Inl IndexError"
| "parse (tok # tokens) =
     (if tok_type tok = IDENT then Inr (tokens, Node_VARIABLE (tok_value tok))
      else if tok_type tok = NUMBER then
        (case py_float (tok_value tok) of
           None \<Rightarrow> Inl (ValueError_float (tok_value tok))
         | Some x \<Rightarrow> Inr (tokens, Node_NUMBER x))
      else if tok_type tok = LPAREN then
        (case parse tokens of
           Inl e \<Rightarrow> Inl e
         | Inr (tokens', val) \<Rightarrow> parse_operands val tokens')
      else if tok_type tok = LCURLY then
        (case tokens of
           [] \<Rightarrow> Inl IndexError
         | fn # tokens' \<Rightarrow>
             (case parse_params [] tokens' of
                Inl e \<Rightarrow> Inl e
              | Inr (tokens'', params) \<Rightarrow> Inr (tokens'', Node_CALL (tok_value fn) params)))
      else Inl (SyntaxError_unexpected_token tok))"
| "parse_operands val [] = Inl IndexError"
| "parse_operands val (tok # tokens) =
     (if tok_type tok \<noteq> RPAREN then
        (case parse tokens of
           Inl e \<Rightarrow> Inl e
         | Inr (tokens', right) \<Rightarrow> parse_operands (Node_EXPR (tok_value tok) val right) tokens')
      else Inr (tokens, val))"
| "parse_params params [] = Inl IndexError"
| "parse_params params (tok # tokens) =
     (if tok_type tok \<noteq> RCURLY then
        (case parse (tok # tokens) of
           Inl e \<Rightarrow> Inl e
         | Inr (tokens', param) \<Rightarrow> parse_params (params @ [param]) tokens')
      else Inr (tokens, params))"
  by pat_completeness auto

text \<open>
  The loops go on with the tokens a nested call of \<open>parse\<close> returns, so termination
  rests on a fact about \<open>parse\<close> itself: wherever it is defined and succeeds, it
  returns fewer tokens than it was given.
\<close>

lemma parse_shorter_dom:
  "parse_parse_operands_parse_params_dom (Inl ts) \<Longrightarrow>
     (\<forall>r n. parse ts = Inr (r, n) \<longrightarrow> length r < length ts)"
  "parse_parse_operands_parse_params_dom (Inr (Inl (v, us))) \<Longrightarrow>
     (\<forall>r n. parse_operands v us = Inr (r, n) \<longrightarrow> length r < length us)"
  "parse_parse_operands_parse_params_dom (Inr (Inr (ps, ws))) \<Longrightarrow>
     (\<forall>r ns. parse_params ps ws = Inr (r, ns) \<longrightarrow> length r < length ws)"
proof (induct rule: parse_parse_operands_parse_params.pinduct)
  case 1
  then show ?case by (simp add: parse.psimps)
next
  case (2 tok tokens)
  then show ?case
    by (simp add: parse.psimps split: option.splits sum.splits list.splits prod.splits) fastforce
next
  case (3 val)
  then show ?case by (simp add: parse_operands.psimps)
next
  case (4 val tok tokens)
  then show ?case
    by (simp add: parse_operands.psimps split: sum.splits prod.splits) fastforce
next
  case (5 params)
  then show ?case by (simp add: parse_params.psimps)
next
  case (6 params tok tokens)
  then show ?case
    by (simp add: parse_params.psimps split: sum.splits prod.splits) fastforce
qed

termination parse
proof (relation "measures
    [\<lambda>x. case x of Inl ts \<Rightarrow> length ts | Inr (Inl (v, ts)) \<Rightarrow> length ts
        | Inr (Inr (ps, ts)) \<Rightarrow> length ts,
     \<lambda>x. case x of Inl ts \<Rightarrow> 0 | Inr y \<Rightarrow> 1]", goal_cases)
  case 1
  show ?case by simp
next
  case 2
  then show ?case by simp
next
  case (3 tok tokens b x y)
  then show ?case using parse_shorter_dom(1)[of tokens] by auto
next
  case 4
  then show ?case by simp
next
  case 5
  then show ?case by simp
next
  case (6 val tok tokens b x y)
  then show ?case using parse_shorter_dom(1)[of tokens] by auto
next
  case 7
  then show ?case by simp
next
  case (8 params tok tokens b x y)
  then show ?case using parse_shorter_dom(1)[of "tok # tokens"] by auto
qed

section \<open>Function table and evaluator\<close>

text \<open>
  The \<^verbatim>\<open>math\<close> module's functions and the float power \<^verbatim>\<open>**\<close> are not code of the
  repository, and their results are roundings that \<^typ>\<open>real\<close> does not reproduce:
  they are parameters of the model. Each returns a float or raises (a domain error,
  an overflow, a zero base with a negative exponent). A power that Python answers with
  a complex number is outside what is modelled.
\<close>

record pylib =
  py_pow :: "real \<Rightarrow> real \<Rightarrow> lib_error + real"
  math_sqrt :: "real \<Rightarrow> lib_error + real"
  math_sin :: "real \<Rightarrow> lib_error + real"
  math_cos :: "real \<Rightarrow> lib_error + real"
  math_tan :: "real \<Rightarrow> lib_error + real"
  math_gamma :: "real \<Rightarrow> lib_error + real"

definition lib_call :: "lib_error + real \<Rightarrow> error + real" where
  "lib_call r = (case r of Inl e \<Rightarrow> Inl (LibraryError e) | Inr v \<Rightarrow> Inr v)"

type_synonym registry = "string \<rightharpoonup> (real list \<Rightarrow> error + real)"

text \<open>
  The table \<^verbatim>\<open>functions\<close> of \<^verbatim>\<open>main_noannotate.py\<close> (\<open>functions\<close> alone is
  not a name Isabelle admits). Each entry is a lambda over
  the list of evaluated arguments that reads \<^verbatim>\<open>inp[0]\<close>, an IndexError on the empty
  list, and nothing else of the list. \<^verbatim>\<open>fact\<close> is \<^verbatim>\<open>math.gamma(inp[0]) * inp[0]\<close>.
\<close>

definition functions_noannotate :: "pylib \<Rightarrow> registry" where
  "functions_noannotate L =
     [''sqrt'' \<mapsto> (\<lambda>inp. case inp of [] \<Rightarrow> Inl IndexError | a # _ \<Rightarrow> lib_call (math_sqrt L a)),
      ''sin'' \<mapsto> (\<lambda>inp. case inp of [] \<Rightarrow> Inl IndexError | a # _ \<Rightarrow> lib_call (math_sin L a)),
      ''cos'' \<mapsto> (\<lambda>inp. case inp of [] \<Rightarrow> Inl IndexError | a # _ \<Rightarrow> lib_call (math_cos L a)),
      ''tan'' \<mapsto> (\<lambda>inp. case inp of [] \<Rightarrow> Inl IndexError | a # _ \<Rightarrow> lib_call (math_tan L a)),
      ''fact'' \<mapsto> (\<lambda>inp. case inp of [] \<Rightarrow> Inl IndexError
                        | a # _ \<Rightarrow> (case lib_call (math_gamma L a) of
                                      Inl e \<Rightarrow> Inl e
                                    | Inr g \<Rightarrow> Inr (g * a)))]"

text \<open>The table of \<^verbatim>\<open>main.py\<close> has the first entry alone.\<close>

definition functions_main :: "pylib \<Rightarrow> registry" where
  "functions_main L =
     [''sqrt'' \<mapsto> (\<lambda>inp. case inp of [] \<Rightarrow> Inl IndexError | a # _ \<Rightarrow> lib_call (math_sqrt L a))]"

text \<open>
  \<^verbatim>\<open>eval_node\<close>, with the global table as the argument \<open>funs\<close>. The operands of an
  \<^verbatim>\<open>EXPR\<close> are both evaluated before the operator is looked at; \<^verbatim>\<open>left / right\<close>
  raises ZeroDivisionError on a zero divisor. A \<^verbatim>\<open>CALL\<close> looks the name up first,
  then evaluates the arguments in order (\<open>eval_params\<close>, the list comprehension), then
  calls the entry. The last \<^verbatim>\<open>else\<close> of the source (\<^verbatim>\<open>unknown node\<close>) has no node to
  run on: \<^typ>\<open>node\<close> has the four kinds only.
\<close>

fun eval_node :: "pylib \<Rightarrow> registry \<Rightarrow> node \<Rightarrow> (string \<rightharpoonup> real) \<Rightarrow> error + real"
  and eval_params :: "pylib \<Rightarrow> registry \<Rightarrow> node list \<Rightarrow> (string \<rightharpoonup> real) \<Rightarrow> error + real list"
where
  "eval_node L funs (Node_NUMBER v) variables = Inr v"
| "eval_node L funs (Node_VARIABLE name) variables =
     (case variables name of None \<Rightarrow> Inl (KeyError name) | Some v \<Rightarrow> Inr v)"
| "eval_node L funs (Node_EXPR op left right) variables =
     (case eval_node L funs left variables of
        Inl e \<Rightarrow> Inl e
      | Inr l \<Rightarrow>
          (case eval_node L funs right variables of
             Inl e \<Rightarrow> Inl e
           | Inr r \<Rightarrow>
               if op = ''+'' then Inr (l + r)
               else if op = ''-'' then Inr (l - r)
               else if op = ''*'' then Inr (l * r)
               else if op = ''/'' then (if r = 0 then Inl ZeroDivisionError else Inr (l / r))
               else if op = ''^'' then lib_call (py_pow L l r)
               else Inl (SyntaxError_unknown_operator op)))"
| "eval_node L funs (Node_CALL fn_name params) variables =
     (case funs fn_name of
        None \<Rightarrow> Inl (NameError_unknown_function fn_name)
      | Some f \<Rightarrow>
          (case eval_params L funs params variables of
             Inl e \<Rightarrow> Inl e
           | Inr args \<Rightarrow> f args))"
| "eval_params L funs [] variables = Inr []"
| "eval_params L funs (param # params) variables =
     (case eval_node L funs param variables of
        Inl e \<Rightarrow> Inl e
      | Inr v \<Rightarrow>
          (case eval_params L funs params variables of
             Inl e \<Rightarrow> Inl e
           | Inr vs \<Rightarrow> Inr (v # vs)))"

text \<open>
  The \<^verbatim>\<open>if\<close>/\<^verbatim>\<open>elif\<close> chain on \<^verbatim>\<open>op\<close> in the \<^verbatim>\<open>EXPR\<close> branch, on its own: what
  is done with the two operands once both are evaluated.
\<close>

definition apply_operator :: "pylib \<Rightarrow> string \<Rightarrow> real \<Rightarrow> real \<Rightarrow> error + real" where
  "apply_operator L op left right =
     (if op = ''+'' then Inr (left + right)
      else if op = ''-'' then Inr (left - right)
      else if op = ''*'' then Inr (left * right)
      else if op = ''/'' then (if right = 0 then Inl ZeroDivisionError else Inr (left / right))
      else if op = ''^'' then lib_call (py_pow L left right)
      else Inl (SyntaxError_unknown_operator op))"

text \<open>
  The scripts' last lines: \<^verbatim>\<open>(_, ast) = parse(tokenize(src))\<close>, then
  \<^verbatim>\<open>eval_node(ast, variables)\<close>. The tokens left over after the tree are dropped.
\<close>

definition eval_text :: "pylib \<Rightarrow> registry \<Rightarrow> string \<Rightarrow> (string \<rightharpoonup> real) \<Rightarrow> error + real" where
  "eval_text L funs src variables =
     (case tokenize src of
        Inl e \<Rightarrow> Inl e
      | Inr tokens \<Rightarrow>
          (case parse tokens of
             Inl e \<Rightarrow> Inl e
           | Inr (rest, ast) \<Rightarrow> eval_node L funs ast variables))"

text \<open>
  One library to run the model on: the real functions in place of their float64
  roundings, with the errors Python raises where the real function has no value.
  \<^item> \<^verbatim>\<open>**\<close>: 1 for a zero exponent; for a zero base ZeroDivisionError on a negative
    exponent and 0 otherwise; for a positive base the real power; for a negative base
    the integer power when the exponent is an integer (Python answers a fractional
    one with a complex number, which the model has no value for).
  \<^item> \<^verbatim>\<open>math.sqrt\<close>: the domain error below zero.
  \<^item> \<^verbatim>\<open>math.gamma\<close>: the domain error at zero and the negative integers, the
    factorial of \<open>a - 1\<close> at a positive integer \<open>a\<close>, and Gauss's limit
    \<open>n! n\<^sup>a / (a (a + 1) \<dots> (a + n))\<close> elsewhere.
  The theorems hold for every library; this one closes their instances, and no
  instance below needs more of it than values at small integers.
\<close>

definition real_gamma :: "real \<Rightarrow> real" where
  "real_gamma a = lim (\<lambda>n. fact n * real n powr a / (\<Prod>k = 0..n. a + real k))"

definition exact_lib :: pylib where
  "exact_lib =
     \<lparr>py_pow = (\<lambda>x y. if y = 0 then Inr 1
                       else if x = 0 then (if y < 0 then Inl LibZeroDivisionError else Inr 0)
                       else if 0 < x then Inr (x powr y)
                       else if y = of_int \<lfloor>y\<rfloor> then Inr (x powi \<lfloor>y\<rfloor>)
                       else Inl LibValueError),
      math_sqrt = (\<lambda>a. if a < 0 then Inl LibValueError else Inr (sqrt a)),
      math_sin = (\<lambda>a. Inr (sin a)),
      math_cos = (\<lambda>a. Inr (cos a)),
      math_tan = (\<lambda>a. Inr (tan a)),
      math_gamma = (\<lambda>a. if a \<le> 0 \<and> a = of_int \<lfloor>a\<rfloor> then Inl LibValueError
                         else if a = real (nat \<lfloor>a\<rfloor>) then Inr (real (fact (nat \<lfloor>a\<rfloor> - 1)))
                         else Inr (real_gamma a))\<rparr>"

text \<open>
  The operator strings a tree holds in its \<^verbatim>\<open>EXPR\<close> nodes, and the five strings the
  evaluator has a branch for.
\<close>

fun operators :: "node \<Rightarrow> string set" where
  "operators (Node_NUMBER v) = {}"
| "operators (Node_VARIABLE name) = {}"
| "operators (Node_EXPR op left right) = {op} \<union> operators left \<union> operators right"
| "operators (Node_CALL fn_name params) = (\<Union>param\<in>set params. operators param)"

definition evaluated_operators :: "string set" where
  "evaluated_operators = {''+'', ''-'', ''*'', ''/'', ''^''}"

section \<open>Evaluating the model on texts\<close>

lemmas tokenize_simps = tokenize_def get_ident_def get_num_def letters_def numbers_def

lemmas py_float_simps = py_float_def digits_value_def digit_value_def numbers_def

section \<open>The parser consumes tokens from the front\<close>

text \<open>
  The three functions at once, along their own recursion: what is returned is what was
  given with a non-empty front part removed.
\<close>

lemma parse_consumes:
  "\<forall>r n. parse ts = Inr (r, n) \<longrightarrow> (\<exists>pre. pre \<noteq> [] \<and> ts = pre @ r)"
  "\<forall>r n. parse_operands v us = Inr (r, n) \<longrightarrow> (\<exists>pre. pre \<noteq> [] \<and> us = pre @ r)"
  "\<forall>r ns. parse_params ps ws = Inr (r, ns) \<longrightarrow> (\<exists>pre. pre \<noteq> [] \<and> ws = pre @ r)"
proof (induct ts and v us and ps ws rule: parse_parse_operands_parse_params.induct)
  case 1
  show ?case by simp
next
  case (2 tok tokens)
  show ?case
  proof (intro allI impI)
    fix r n
    assume res: "parse (tok # tokens) = Inr (r, n)"
    consider (ident) "tok_type tok = IDENT" | (number) "tok_type tok = NUMBER"
      | (lparen) "tok_type tok = LPAREN" | (lcurly) "tok_type tok = LCURLY"
      | (other) "tok_type tok \<notin> {IDENT, NUMBER, LPAREN, LCURLY}"
      by auto
    then show "\<exists>pre. pre \<noteq> [] \<and> tok # tokens = pre @ r"
    proof cases
      case ident
      with res have "tok # tokens = [tok] @ r" by simp
      then show ?thesis by blast
    next
      case number
      with res have "tok # tokens = [tok] @ r" by (simp split: option.splits)
      then show ?thesis by blast
    next
      case lparen
      with res obtain r1 v1 where p1: "parse tokens = Inr (r1, v1)"
        and p2: "parse_operands v1 r1 = Inr (r, n)"
        by (auto split: sum.splits)
      from "2.hyps"(1) lparen p1 obtain pre1 where "tokens = pre1 @ r1" by auto
      moreover from "2.hyps"(2)[OF _ _ lparen p1 refl] lparen p2 obtain pre2 where "r1 = pre2 @ r"
        by auto
      ultimately have "tok # tokens = (tok # pre1 @ pre2) @ r" by simp
      then show ?thesis by blast
    next
      case lcurly
      with res obtain fn toks params where t: "tokens = fn # toks"
        and p: "parse_params [] toks = Inr (r, params)"
        by (auto split: list.splits sum.splits)
      from "2.hyps"(3)[OF _ _ _ lcurly t] lcurly p obtain pre where "toks = pre @ r" by auto
      with t have "tok # tokens = (tok # fn # pre) @ r" by simp
      then show ?thesis by blast
    next
      case other
      with res show ?thesis by auto
    qed
  qed
next
  case (3 val)
  show ?case by simp
next
  case (4 val tok tokens)
  show ?case
  proof (intro allI impI)
    fix r n
    assume res: "parse_operands val (tok # tokens) = Inr (r, n)"
    show "\<exists>pre. pre \<noteq> [] \<and> tok # tokens = pre @ r"
    proof (cases "tok_type tok = RPAREN")
      case True
      with res have "tok # tokens = [tok] @ r" by simp
      then show ?thesis by blast
    next
      case False
      with res obtain r1 right where p1: "parse tokens = Inr (r1, right)"
        and p2: "parse_operands (Node_EXPR (tok_value tok) val right) r1 = Inr (r, n)"
        by (auto split: sum.splits)
      from "4.hyps"(1) False p1 obtain pre1 where "tokens = pre1 @ r1" by auto
      moreover from "4.hyps"(2)[OF False p1 refl] p2 obtain pre2 where "r1 = pre2 @ r" by auto
      ultimately have "tok # tokens = (tok # pre1 @ pre2) @ r" by simp
      then show ?thesis by blast
    qed
  qed
next
  case (5 params)
  show ?case by simp
next
  case (6 params tok tokens)
  show ?case
  proof (intro allI impI)
    fix r ns
    assume res: "parse_params params (tok # tokens) = Inr (r, ns)"
    show "\<exists>pre. pre \<noteq> [] \<and> tok # tokens = pre @ r"
    proof (cases "tok_type tok = RCURLY")
      case True
      with res have "tok # tokens = [tok] @ r" by simp
      then show ?thesis by blast
    next
      case False
      with res obtain r1 param where p1: "parse (tok # tokens) = Inr (r1, param)"
        and p2: "parse_params (params @ [param]) r1 = Inr (r, ns)"
        by (auto split: sum.splits)
      from "6.hyps"(1) False p1 obtain pre1 where a: "pre1 \<noteq> []" "tok # tokens = pre1 @ r1" by auto
      moreover from "6.hyps"(2)[OF False p1 refl] p2 obtain pre2 where "r1 = pre2 @ r" by auto
      ultimately have "tok # tokens = (pre1 @ pre2) @ r" "pre1 @ pre2 \<noteq> []" by simp_all
      then show ?thesis by blast
    qed
  qed
qed


text \<open>
  C10. Whenever \<open>parse\<close> succeeds, the tokens it returns are a strict suffix of the
  tokens it was given: it takes at least one token off the front and returns the rest
  as they were, in order. (On the empty sequence it does not succeed.)
\<close>

theorem parse_strict_suffix:
  "parse tokens = Inr (rest, ast) \<Longrightarrow> strict_suffix rest tokens"
  using parse_consumes(1)[of tokens] by (auto simp: strict_suffix_def suffix_def)

theorem parse_strict_suffix_witness:
  "parse [Token LPAREN ''('', Token IDENT ''x'', Token OPERATOR ''+'', Token NUMBER ''1'',
          Token RPAREN '')'', Token IDENT ''y''] =
     Inr ([Token IDENT ''y''], Node_EXPR ''+'' (Node_VARIABLE ''x'') (Node_NUMBER 1)) \<and>
   strict_suffix [Token IDENT ''y'']
     [Token LPAREN ''('', Token IDENT ''x'', Token OPERATOR ''+'', Token NUMBER ''1'',
      Token RPAREN '')'', Token IDENT ''y'']"
proof -
  have p: "parse [Token LPAREN ''('', Token IDENT ''x'', Token OPERATOR ''+'', Token NUMBER ''1'',
          Token RPAREN '')'', Token IDENT ''y''] =
     Inr ([Token IDENT ''y''], Node_EXPR ''+'' (Node_VARIABLE ''x'') (Node_NUMBER 1))"
    by (simp add: py_float_simps)
  from parse_strict_suffix[OF p] p show ?thesis by simp
qed

section \<open>A dangling operator\<close>

text \<open>
  C9. The text \<^verbatim>\<open>(1+)\<close> tokenizes to four tokens, and parsing them raises the
  parser's own SyntaxError for an unexpected token, on the \<^verbatim>\<open>)\<close> that stands where
  the right operand should: not an IndexError from reading past the tokens.
\<close>

theorem dangling_operator_unexpected_token:
  "tokenize ''(1+)'' =
     Inr [Token LPAREN ''('', Token NUMBER ''1'', Token OPERATOR ''+'', Token RPAREN '')''] \<and>
   parse [Token LPAREN ''('', Token NUMBER ''1'', Token OPERATOR ''+'', Token RPAREN '')''] =
     Inl (SyntaxError_unexpected_token (Token RPAREN '')'')) \<and>
   parse [Token LPAREN ''('', Token NUMBER ''1'', Token OPERATOR ''+'', Token RPAREN '')''] \<noteq>
     Inl IndexError"
  by (simp add: tokenize_simps py_float_simps)

section \<open>What the tokenizer skips and what it rejects\<close>

text \<open>The two scanning loops return the longest run and what follows it.\<close>

lemma get_ident_loop_run:
  "code \<noteq> [] \<Longrightarrow>
   get_ident_loop out code =
     Inr (out @ takeWhile (\<lambda>c. c \<in> letters) code, dropWhile (\<lambda>c. c \<in> letters) code)"
  by (induction out code rule: get_ident_loop.induct) auto

lemma get_num_loop_run:
  "code \<noteq> [] \<Longrightarrow>
   get_num_loop out code =
     Inr (out @ takeWhile (\<lambda>c. c \<in> numbers) code, dropWhile (\<lambda>c. c \<in> numbers) code)"
  by (induction out code rule: get_num_loop.induct) auto

text \<open>
  A character outside \<open>accepted_chars\<close> ends the loop with its SyntaxError, whatever
  tokens were gathered before it.
\<close>

lemma find_dropWhile_other:
  "(\<And>x. Q x \<Longrightarrow> \<not> P x) \<Longrightarrow> find P (dropWhile Q xs) = find P xs"
  by (induction xs) auto

lemma tokenize_loop_rejects:
  "find (\<lambda>c. c \<notin> accepted_chars) code = Some bad \<Longrightarrow>
   tokenize_loop tokens code = Inl (SyntaxError_unknown_character bad)"
proof (induction tokens code rule: tokenize_loop.induct)
  case (1 tokens)
  then show ?case by simp
next
  case (2 tokens char code)
  show ?case
  proof (cases "char \<in> accepted_chars")
    case False
    with "2.prems" have "bad = char" by simp
    with False show ?thesis by (simp add: accepted_chars_def single_chars_def)
  next
    case True
    with "2.prems" have rest: "find (\<lambda>c. c \<notin> accepted_chars) code = Some bad" by simp
    consider (single) "char \<in> single_chars" | (space) "char \<notin> single_chars" "char = CHR '' ''"
      | (letter) "char \<notin> single_chars" "char \<noteq> CHR '' ''" "char \<in> letters"
      | (number) "char \<notin> single_chars" "char \<noteq> CHR '' ''" "char \<notin> letters" "char \<in> numbers"
      using True by (auto simp: accepted_chars_def)
    then show ?thesis
    proof cases
      case single
      then show ?thesis using "2.IH"(1-10) rest by (auto simp: single_chars_def)
    next
      case space
      then show ?thesis using "2.IH"(11) rest by (simp add: single_chars_def)
    next
      case letter
      let ?code' = "dropWhile (\<lambda>c. c \<in> letters) (char # code)"
      have g: "get_ident (char # code) = Inr (takeWhile (\<lambda>c. c \<in> letters) (char # code), ?code')"
        unfolding get_ident_def by (subst get_ident_loop_run) simp_all
      have "find (\<lambda>c. c \<notin> accepted_chars) ?code' = find (\<lambda>c. c \<notin> accepted_chars) (char # code)"
        by (rule find_dropWhile_other) (simp add: accepted_chars_def)
      with "2.prems" have f: "find (\<lambda>c. c \<notin> accepted_chars) ?code' = Some bad" by simp
      from letter have ne: "char \<noteq> CHR ''(''" "char \<noteq> CHR '')''" "char \<noteq> CHR ''{''" "char \<noteq> CHR ''}''"
        "char \<noteq> CHR ''+''" "char \<noteq> CHR ''-''" "char \<noteq> CHR ''*''" "char \<noteq> CHR ''/''"
        "char \<noteq> CHR ''=''" "char \<noteq> CHR ''^''"
        by (auto simp: single_chars_def)
      from "2.IH"(12)[OF ne letter(2,3) g refl f] ne letter g
      show ?thesis by (simp del: dropWhile.simps takeWhile.simps)
    next
      case number
      let ?code' = "dropWhile (\<lambda>c. c \<in> numbers) (char # code)"
      have g: "get_num (char # code) = Inr (takeWhile (\<lambda>c. c \<in> numbers) (char # code), ?code')"
        unfolding get_num_def by (subst get_num_loop_run) simp_all
      have "find (\<lambda>c. c \<notin> accepted_chars) ?code' = find (\<lambda>c. c \<notin> accepted_chars) (char # code)"
        by (rule find_dropWhile_other) (simp add: accepted_chars_def)
      with "2.prems" have f: "find (\<lambda>c. c \<notin> accepted_chars) ?code' = Some bad" by simp
      from number have ne: "char \<noteq> CHR ''(''" "char \<noteq> CHR '')''" "char \<noteq> CHR ''{''" "char \<noteq> CHR ''}''"
        "char \<noteq> CHR ''+''" "char \<noteq> CHR ''-''" "char \<noteq> CHR ''*''" "char \<noteq> CHR ''/''"
        "char \<noteq> CHR ''=''" "char \<noteq> CHR ''^''"
        by (auto simp: single_chars_def)
      from "2.IH"(13)[OF ne number(2,3,4) g refl f] ne number g
      show ?thesis by (simp del: dropWhile.simps takeWhile.simps)
    qed
  qed
qed

lemma find_first_bad:
  "set pre \<subseteq> A \<Longrightarrow> c \<notin> A \<Longrightarrow> find (\<lambda>x. x \<notin> A) (pre @ c # post) = Some c"
  by (induction pre) auto


lemma letters_not_single:
  "char \<in> letters \<Longrightarrow> char \<notin> single_chars \<and> char \<noteq> CHR '' '' \<and> char \<notin> numbers"
  by (auto simp: letters_def single_chars_def numbers_def)

lemma numbers_not_single:
  "char \<in> numbers \<Longrightarrow> char \<notin> single_chars \<and> char \<noteq> CHR '' '' \<and> char \<notin> letters"
  by (auto simp: letters_def single_chars_def numbers_def)

lemma tokenize_loop_letter:
  assumes "char \<in> letters"
  shows "tokenize_loop tokens (char # code) =
     tokenize_loop (tokens @ [Token IDENT (takeWhile (\<lambda>c. c \<in> letters) (char # code))])
       (dropWhile (\<lambda>c. c \<in> letters) (char # code))"
proof -
  have g: "get_ident (char # code) =
      Inr (takeWhile (\<lambda>c. c \<in> letters) (char # code), dropWhile (\<lambda>c. c \<in> letters) (char # code))"
    unfolding get_ident_def by (subst get_ident_loop_run) simp_all
  from letters_not_single[OF assms] have "char \<noteq> CHR ''(''" "char \<noteq> CHR '')''" "char \<noteq> CHR ''{''"
    "char \<noteq> CHR ''}''" "char \<noteq> CHR ''+''" "char \<noteq> CHR ''-''" "char \<noteq> CHR ''*''"
    "char \<noteq> CHR ''/''" "char \<noteq> CHR ''=''" "char \<noteq> CHR ''^''" "char \<noteq> CHR '' ''"
    by (auto simp: single_chars_def)
  with assms g show ?thesis by (simp del: dropWhile.simps takeWhile.simps)
qed

lemma tokenize_loop_number:
  assumes "char \<in> numbers"
  shows "tokenize_loop tokens (char # code) =
     tokenize_loop (tokens @ [Token NUMBER (takeWhile (\<lambda>c. c \<in> numbers) (char # code))])
       (dropWhile (\<lambda>c. c \<in> numbers) (char # code))"
proof -
  have g: "get_num (char # code) =
      Inr (takeWhile (\<lambda>c. c \<in> numbers) (char # code), dropWhile (\<lambda>c. c \<in> numbers) (char # code))"
    unfolding get_num_def by (subst get_num_loop_run) simp_all
  from numbers_not_single[OF assms] have "char \<noteq> CHR ''(''" "char \<noteq> CHR '')''" "char \<noteq> CHR ''{''"
    "char \<noteq> CHR ''}''" "char \<noteq> CHR ''+''" "char \<noteq> CHR ''-''" "char \<noteq> CHR ''*''"
    "char \<noteq> CHR ''/''" "char \<noteq> CHR ''=''" "char \<noteq> CHR ''^''" "char \<noteq> CHR '' ''"
    "char \<notin> letters"
    by (auto simp: single_chars_def)
  with assms g show ?thesis by (simp del: dropWhile.simps takeWhile.simps)
qed

lemma tokenize_loop_number_run:
  assumes "lit \<noteq> []" "set lit \<subseteq> numbers" "code = [] \<or> hd code \<notin> numbers"
  shows "tokenize_loop tokens (lit @ code) = tokenize_loop (tokens @ [Token NUMBER lit]) code"
proof -
  from assms(1) obtain c cs where lit: "lit = c # cs" by (cases lit) auto
  with assms(2) have c: "c \<in> numbers" by simp
  from assms(2) have all: "\<forall>x\<in>set lit. x \<in> numbers" by auto
  from assms(3) have "takeWhile (\<lambda>c. c \<in> numbers) code = []" "dropWhile (\<lambda>c. c \<in> numbers) code = code"
    by (cases code; simp)+
  with all have "takeWhile (\<lambda>c. c \<in> numbers) (lit @ code) = lit"
    "dropWhile (\<lambda>c. c \<in> numbers) (lit @ code) = code"
    by (simp_all add: takeWhile_append dropWhile_append)
  with tokenize_loop_number[OF c, of tokens "cs @ code"] lit show ?thesis by simp
qed

lemma tokenize_loop_no_space:
  "tokenize_loop tokens code = Inr ts \<Longrightarrow>
   \<forall>t\<in>set tokens. CHR '' '' \<notin> set (tok_value t) \<Longrightarrow>
   \<forall>t\<in>set ts. CHR '' '' \<notin> set (tok_value t)"
proof (induction code arbitrary: tokens rule: length_induct)
  case (1 code)
  have ih: "\<And>ys tokens'. length ys < length code \<Longrightarrow> tokenize_loop tokens' ys = Inr ts \<Longrightarrow>
      \<forall>t\<in>set tokens'. CHR '' '' \<notin> set (tok_value t) \<Longrightarrow> \<forall>t\<in>set ts. CHR '' '' \<notin> set (tok_value t)"
    using "1.IH" by blast
  show ?case
  proof (cases code)
    case Nil
    with "1.prems" show ?thesis by simp
  next
    case (Cons char rest)
    consider (single) "char \<in> single_chars" | (space) "char = CHR '' ''"
      | (letter) "char \<in> letters" | (number) "char \<in> numbers"
      | (other) "char \<notin> accepted_chars"
      by (auto simp: accepted_chars_def)
    then show ?thesis
    proof cases
      case single
      then obtain t where step: "tokenize_loop tokens code = tokenize_loop (tokens @ [t]) rest"
        and t: "CHR '' '' \<notin> set (tok_value t)"
        using Cons by (auto simp: single_chars_def)
      from ih[of rest "tokens @ [t]"] step t "1.prems" Cons show ?thesis by simp
    next
      case space
      from ih[of rest tokens] space Cons "1.prems" show ?thesis by simp
    next
      case letter
      let ?run = "takeWhile (\<lambda>c. c \<in> letters) code"
      let ?code' = "dropWhile (\<lambda>c. c \<in> letters) code"
      have "CHR '' '' \<notin> letters" by (simp add: letters_def)
      then have run: "CHR '' '' \<notin> set ?run" by (auto dest: set_takeWhileD)
      have len: "length ?code' < length code"
        using letter Cons length_dropWhile_le[of "\<lambda>c. c \<in> letters" rest] by simp
      have "tokenize_loop (tokens @ [Token IDENT ?run]) ?code' = Inr ts"
        using tokenize_loop_letter[OF letter, of tokens rest] Cons "1.prems"(1) by simp
      from ih[OF len this] run "1.prems"(2) show ?thesis by simp
    next
      case number
      let ?run = "takeWhile (\<lambda>c. c \<in> numbers) code"
      let ?code' = "dropWhile (\<lambda>c. c \<in> numbers) code"
      have "CHR '' '' \<notin> numbers" by (simp add: numbers_def)
      then have run: "CHR '' '' \<notin> set ?run" by (auto dest: set_takeWhileD)
      have len: "length ?code' < length code"
        using number Cons length_dropWhile_le[of "\<lambda>c. c \<in> numbers" rest] by simp
      have "tokenize_loop (tokens @ [Token NUMBER ?run]) ?code' = Inr ts"
        using tokenize_loop_number[OF number, of tokens rest] Cons "1.prems"(1) by simp
      from ih[OF len this] run "1.prems"(2) show ?thesis by simp
    next
      case other
      then have "tokenize_loop tokens code = Inl (SyntaxError_unknown_character char)"
        using Cons by (simp add: accepted_chars_def single_chars_def)
      with "1.prems" show ?thesis by simp
    qed
  qed
qed

text \<open>
  C6, as the code has it. The only character skipped is the space \<^verbatim>\<open>" "\<close>: at the
  head of the loop it is dropped and no token is appended, and no token of a result
  holds a space. A text whose first character outside the one-character tokens, the
  space, the lowercase letters and the digits and dot is \<open>bad\<close> raises
  \<^verbatim>\<open>SyntaxError("unknown character: " + bad)\<close> and returns no token list. Other
  whitespace (a tab, a newline) is such a character.
\<close>

theorem tokenize_skips_space_rejects_unknown:
  "tokenize_loop tokens (CHR '' '' # code) = tokenize_loop tokens code \<and>
   (tokenize code = Inr ts \<longrightarrow> (\<forall>t\<in>set ts. CHR '' '' \<notin> set (tok_value t))) \<and>
   (set pre \<subseteq> accepted_chars \<and> bad \<notin> accepted_chars \<longrightarrow>
      tokenize (pre @ bad # post) = Inl (SyntaxError_unknown_character bad))"
proof (intro conjI impI)
  show "tokenize_loop tokens (CHR '' '' # code) = tokenize_loop tokens code" by simp
next
  assume "tokenize code = Inr ts"
  then show "\<forall>t\<in>set ts. CHR '' '' \<notin> set (tok_value t)"
    using tokenize_loop_no_space[of "[]" code ts] by (simp add: tokenize_def)
next
  assume "set pre \<subseteq> accepted_chars \<and> bad \<notin> accepted_chars"
  then have "find (\<lambda>c. c \<notin> accepted_chars) (pre @ bad # post) = Some bad"
    by (simp add: find_first_bad)
  then show "tokenize (pre @ bad # post) = Inl (SyntaxError_unknown_character bad)"
    unfolding tokenize_def by (rule tokenize_loop_rejects)
qed

theorem tokenize_skips_space_rejects_unknown_witness:
  "tokenize ''a  b'' = Inr [Token IDENT ''a'', Token IDENT ''b''] \<and>
   CHR '' '' \<notin> set (tok_value (Token IDENT ''a'')) \<and>
   set ''(x + '' \<subseteq> accepted_chars \<and> CHR ''?'' \<notin> accepted_chars \<and>
   tokenize ''(x + ?1)'' = Inl (SyntaxError_unknown_character (CHR ''?''))"
proof -
  have t: "tokenize ''a  b'' = Inr [Token IDENT ''a'', Token IDENT ''b'']"
    by (simp add: tokenize_simps)
  have a: "set ''(x + '' \<subseteq> accepted_chars \<and> CHR ''?'' \<notin> accepted_chars"
    by (simp add: accepted_chars_def single_chars_def letters_def numbers_def)
  from tokenize_skips_space_rejects_unknown[of "[]" "''a  b''" "[Token IDENT ''a'', Token IDENT ''b'']"
      "''(x + ''" "CHR ''?''" "''1)''"] t a
  show ?thesis by simp
qed

text \<open>
  The claim as written fails on whitespace other than the space: a tab or a newline
  is not skipped, it raises.
\<close>

theorem tokenize_tab_counterexample:
  "tokenize [CHR 0x09] = Inl (SyntaxError_unknown_character (CHR 0x09)) \<and>
   tokenize (''x'' @ [CHR 0x0A] @ ''y'') = Inl (SyntaxError_unknown_character (CHR 0x0A))"
  by (simp add: tokenize_simps)

section \<open>Number literals\<close>

text \<open>A literal with two dots or more is not a float.\<close>

lemma py_float_two_dots:
  assumes "1 < count_list lit (CHR ''.'')"
  shows "py_float lit = None"
proof -
  let ?whole = "takeWhile (\<lambda>c. c \<noteq> CHR ''.'') lit"
  let ?rest = "dropWhile (\<lambda>c. c \<noteq> CHR ''.'') lit"
  have split: "lit = ?whole @ ?rest" by simp
  have w: "count_list ?whole (CHR ''.'') = 0"
    by (auto simp: count_list_0_iff dest: set_takeWhileD)
  have "count_list lit (CHR ''.'') = count_list ?whole (CHR ''.'') + count_list ?rest (CHR ''.'')"
    by (subst split) (simp only: count_list_append)
  with w assms have r: "1 < count_list ?rest (CHR ''.'')" by simp
  have "?rest \<noteq> []"
  proof
    assume e: "?rest = []"
    from r show False unfolding e by simp
  qed
  then obtain x xs where rest: "?rest = x # xs" by (cases ?rest) auto
  then have "x = CHR ''.''" using hd_dropWhile[of "\<lambda>c. c \<noteq> CHR ''.''" lit] by auto
  with r rest have "0 < count_list xs (CHR ''.'')" by simp
  then have "CHR ''.'' \<in> set xs" using count_list_0_iff[of xs "CHR ''.''"] by auto
  with rest show ?thesis by (simp add: py_float_def Let_def)
qed


text \<open>
  C8. A run of digits and dots is stored as it stands in one \<^verbatim>\<open>NUMBER\<close> token,
  wherever it stands in the text, and the tokenizer raises nothing on it. When the run
  has more than one dot, or is the dot alone, \<open>parse\<close> raises the ValueError of
  \<^verbatim>\<open>float\<close> on that literal as soon as it reads the token.
\<close>

theorem malformed_number_literal:
  assumes "lit \<noteq> []" and "set lit \<subseteq> numbers" and "code = [] \<or> hd code \<notin> numbers"
    and "1 < count_list lit (CHR ''.'') \<or> lit = ''.''"
  shows "tokenize_loop tokens (lit @ code) = tokenize_loop (tokens @ [Token NUMBER lit]) code \<and>
    tokenize lit = Inr [Token NUMBER lit] \<and>
    parse (Token NUMBER lit # rest) = Inl (ValueError_float lit)"
proof -
  have run: "tokenize_loop tokens (lit @ code) = tokenize_loop (tokens @ [Token NUMBER lit]) code"
    using assms(1-3) by (rule tokenize_loop_number_run)
  have "tokenize_loop [] (lit @ []) = tokenize_loop ([] @ [Token NUMBER lit]) []"
    using assms(1,2) by (intro tokenize_loop_number_run) simp_all
  then have whole: "tokenize lit = Inr [Token NUMBER lit]" by (simp add: tokenize_def)
  have "py_float lit = None"
    using assms(4) by (auto simp: py_float_two_dots) (simp add: py_float_simps)
  then have "parse (Token NUMBER lit # rest) = Inl (ValueError_float lit)" by simp
  with run whole show ?thesis by simp
qed

theorem malformed_number_literal_witness:
  "tokenize ''1.2.3'' = Inr [Token NUMBER ''1.2.3''] \<and>
   parse [Token NUMBER ''1.2.3''] = Inl (ValueError_float ''1.2.3'') \<and>
   tokenize ''.'' = Inr [Token NUMBER ''.''] \<and>
   parse [Token NUMBER ''.''] = Inl (ValueError_float ''.'') \<and>
   tokenize_loop [] ''1.2.3)'' = tokenize_loop [Token NUMBER ''1.2.3''] '')''"
proof -
  have n: "set ''1.2.3'' \<subseteq> numbers" "set ''.'' \<subseteq> numbers" "hd '')'' \<notin> numbers"
    by (simp_all add: numbers_def)
  have c: "1 < count_list ''1.2.3'' (CHR ''.'')" by simp
  from malformed_number_literal[of "''1.2.3''" "[]" "[]" "[]"]
    malformed_number_literal[of "''.''" "[]" "[]" "[]"]
    malformed_number_literal[of "''1.2.3''" "'')''" "[]" "[]"] n c
  show ?thesis by simp
qed

section \<open>What the function table does with its arguments\<close>

text \<open>
  Both tables, entry by entry: an entry raises IndexError on the empty list or passes
  on what the library raises, and on a non-empty list it reads the first element only.
\<close>

lemma lib_call_error: "lib_call r = Inl e \<Longrightarrow> \<exists>le. e = LibraryError le"
  by (auto simp: lib_call_def split: sum.splits)

lemma registry_errors:
  assumes "funs = functions_noannotate L \<or> funs = functions_main L" "funs name = Some f"
    "f args = Inl e"
  shows "e = IndexError \<or> (\<exists>le. e = LibraryError le)"
  using assms
  by (auto simp: functions_noannotate_def functions_main_def lib_call_def
      split: if_splits list.splits sum.splits)

lemma registry_first_argument:
  assumes "funs = functions_noannotate L \<or> funs = functions_main L" "funs name = Some f"
  shows "f (a # extra) = f [a]"
  using assms
  by (auto simp: functions_noannotate_def functions_main_def split: if_splits)

lemma registry_no_argument:
  assumes "funs = functions_noannotate L \<or> funs = functions_main L" "funs name = Some f"
  shows "f [] = Inl IndexError"
  using assms
  by (auto simp: functions_noannotate_def functions_main_def split: if_splits)

text \<open>
  C3, as the code has it. In either table, for every name it holds, a call with no
  argument raises the IndexError of \<^verbatim>\<open>inp[0]\<close>. Nothing in the code counts the
  arguments or turns that error into another one.
\<close>

theorem call_without_arguments:
  assumes "funs = functions_noannotate L \<or> funs = functions_main L" and "fn_name \<in> dom funs"
  shows "eval_node L funs (Node_CALL fn_name []) variables = Inl IndexError"
proof -
  from assms(2) obtain f where f: "funs fn_name = Some f" by auto
  from registry_no_argument[OF assms(1) f] f show ?thesis by simp
qed

theorem call_without_arguments_witness:
  "''fact'' \<in> dom (functions_noannotate exact_lib) \<and>
   eval_node exact_lib (functions_noannotate exact_lib) (Node_CALL ''fact'' []) Map.empty =
     Inl IndexError \<and>
   ''sqrt'' \<in> dom (functions_main exact_lib) \<and>
   eval_node exact_lib (functions_main exact_lib) (Node_CALL ''sqrt'' []) Map.empty =
     Inl IndexError"
proof -
  have d: "''fact'' \<in> dom (functions_noannotate exact_lib)" "''sqrt'' \<in> dom (functions_main exact_lib)"
    by (simp_all add: functions_noannotate_def functions_main_def)
  from call_without_arguments[of "functions_noannotate exact_lib" exact_lib "''fact''" Map.empty]
    call_without_arguments[of "functions_main exact_lib" exact_lib "''sqrt''" Map.empty] d
  show ?thesis by simp
qed

text \<open>
  The claim as written names an argument-count error in place of the out-of-range
  access. The text \<^verbatim>\<open>{sqrt}\<close> parses to a call with no argument, and what evaluating
  it raises is the IndexError itself.
\<close>

theorem call_without_arguments_counterexample:
  "tokenize ''{sqrt}'' = Inr [Token LCURLY ''{'', Token IDENT ''sqrt'', Token RCURLY ''}''] \<and>
   parse [Token LCURLY ''{'', Token IDENT ''sqrt'', Token RCURLY ''}''] =
     Inr ([], Node_CALL ''sqrt'' []) \<and>
   eval_node exact_lib (functions_noannotate exact_lib) (Node_CALL ''sqrt'' []) Map.empty =
     Inl IndexError"
  by (simp add: tokenize_simps functions_noannotate_def)

lemma eval_params_first:
  "eval_params L funs (a1 # extra) variables = Inr vs \<Longrightarrow>
   \<exists>v vs'. vs = v # vs' \<and> eval_params L funs [a1] variables = Inr [v]"
  by (auto split: sum.splits)

text \<open>
  C7. When all the arguments of a call evaluate, the call gives what the call on the
  first argument alone gives, in either table and for every name (a name outside the
  table raises the same NameError both times).
\<close>

theorem call_ignores_extra_arguments:
  assumes "funs = functions_noannotate L \<or> funs = functions_main L"
    and "eval_params L funs (a1 # extra) variables = Inr vs"
  shows "eval_node L funs (Node_CALL fn_name (a1 # extra)) variables =
         eval_node L funs (Node_CALL fn_name [a1]) variables"
proof (cases "funs fn_name")
  case None
  then show ?thesis by simp
next
  case (Some f)
  from eval_params_first[OF assms(2)] obtain v vs' where vs: "vs = v # vs'"
    and one: "eval_params L funs [a1] variables = Inr [v]" by blast
  have "eval_node L funs (Node_CALL fn_name (a1 # extra)) variables = f (v # vs')"
    using Some assms(2) vs by (simp del: eval_params.simps)
  also have "\<dots> = f [v]" using assms(1) Some by (rule registry_first_argument)
  also have "\<dots> = eval_node L funs (Node_CALL fn_name [a1]) variables"
    using Some one by (simp del: eval_params.simps)
  finally show ?thesis .
qed

theorem call_ignores_extra_arguments_witness:
  "eval_params exact_lib (functions_noannotate exact_lib)
     [Node_NUMBER 4, Node_VARIABLE ''x'', Node_NUMBER 9] [''x'' \<mapsto> 1] = Inr [4, 1, 9] \<and>
   eval_node exact_lib (functions_noannotate exact_lib)
     (Node_CALL ''sqrt'' [Node_NUMBER 4, Node_VARIABLE ''x'', Node_NUMBER 9]) [''x'' \<mapsto> 1] =
   eval_node exact_lib (functions_noannotate exact_lib)
     (Node_CALL ''sqrt'' [Node_NUMBER 4]) [''x'' \<mapsto> 1] \<and>
   eval_node exact_lib (functions_noannotate exact_lib)
     (Node_CALL ''sqrt'' [Node_NUMBER 4, Node_VARIABLE ''x'', Node_NUMBER 9]) [''x'' \<mapsto> 1] = Inr 2"
proof -
  have p: "eval_params exact_lib (functions_noannotate exact_lib)
     [Node_NUMBER 4, Node_VARIABLE ''x'', Node_NUMBER 9] [''x'' \<mapsto> 1] = Inr [4, 1, 9]"
    by simp
  have v: "eval_node exact_lib (functions_noannotate exact_lib)
     (Node_CALL ''sqrt'' [Node_NUMBER 4]) [''x'' \<mapsto> 1] = Inr 2"
    by (simp add: functions_noannotate_def exact_lib_def lib_call_def)
  from call_ignores_extra_arguments[OF _ p, of "''sqrt''"] p v show ?thesis by simp
qed




section \<open>Division by zero\<close>

text \<open>Evaluating an \<^verbatim>\<open>EXPR\<close> is evaluating its operands, then that step.\<close>

lemma eval_node_expr_step:
  "eval_node L funs (Node_EXPR op left right) variables =
     (case eval_node L funs left variables of
        Inl e \<Rightarrow> Inl e
      | Inr l \<Rightarrow>
          (case eval_node L funs right variables of
             Inl e \<Rightarrow> Inl e
           | Inr r \<Rightarrow> apply_operator L op l r))"
  by (simp add: apply_operator_def split: sum.splits)



section \<open>Operators the evaluator does not know\<close>

text \<open>
  The only place that raises the unknown-operator error is the last branch of an
  \<^verbatim>\<open>EXPR\<close>: neither table raises it.
\<close>

lemma eval_unknown_operator:
  "funs = functions_noannotate L \<or> funs = functions_main L \<Longrightarrow>
   eval_node L funs n vars = Inl (SyntaxError_unknown_operator op) \<Longrightarrow>
     op \<in> operators n \<and> op \<notin> evaluated_operators"
  "funs = functions_noannotate L \<or> funs = functions_main L \<Longrightarrow>
   eval_params L funs ns vars = Inl (SyntaxError_unknown_operator op) \<Longrightarrow>
     op \<in> (\<Union>p\<in>set ns. operators p) \<and> op \<notin> evaluated_operators"
proof (induction L funs n vars and L funs ns vars rule: eval_node_eval_params.induct)
  case (1 L funs v variables)
  then show ?case by simp
next
  case (2 L funs name variables)
  then show ?case by (simp split: option.splits)
next
  case (3 L funs op' left right variables)
  note reg = "3.prems"(1) and res = "3.prems"(2)
  show ?case
  proof (cases "eval_node L funs left variables")
    case (Inl e)
    with res "3.IH"(1)[OF reg] show ?thesis by simp
  next
    case l: (Inr l)
    show ?thesis
    proof (cases "eval_node L funs right variables")
      case (Inl e)
      with l res "3.IH"(2)[OF l reg] show ?thesis by simp
    next
      case r: (Inr r)
      with l res show ?thesis
        by (auto simp: evaluated_operators_def split: if_splits dest: lib_call_error)
    qed
  qed
next
  case (4 L funs fn_name params variables)
  note reg = "4.prems"(1) and res = "4.prems"(2)
  show ?case
  proof (cases "funs fn_name")
    case None
    with res show ?thesis by simp
  next
    case (Some f)
    show ?thesis
    proof (cases "eval_params L funs params variables")
      case (Inl e)
      with Some res "4.IH"[OF Some reg] show ?thesis by simp
    next
      case (Inr args)
      with Some res have "f args = Inl (SyntaxError_unknown_operator op)" by simp
      with registry_errors[OF reg Some this] show ?thesis by simp
    qed
  qed
next
  case (5 L funs variables)
  then show ?case by simp
next
  case (6 L funs param params variables)
  note reg = "6.prems"(1) and res = "6.prems"(2)
  show ?case
  proof (cases "eval_node L funs param variables")
    case (Inl e)
    with res "6.IH"(1)[OF reg] show ?thesis by simp
  next
    case v: (Inr v)
    show ?thesis
    proof (cases "eval_params L funs params variables")
      case (Inl e)
      with v res "6.IH"(2)[OF v reg] show ?thesis by simp
    next
      case (Inr vs)
      with v res show ?thesis by simp
    qed
  qed
qed


text \<open>
  Every operator string of a parsed tree is the \<^verbatim>\<open>value\<close> of a token that was
  parsed.
\<close>

lemma parse_rest_subset:
  assumes "parse ts = Inr (r, n)"
  shows "set r \<subseteq> set ts"
proof -
  from parse_consumes(1)[of ts] assms obtain pre where "ts = pre @ r" by blast
  then have "set ts = set pre \<union> set r" by (metis set_append)
  then show ?thesis by blast
qed

lemma subset_via:
  "N \<subseteq> M \<union> R \<Longrightarrow> M \<subseteq> P \<union> T \<Longrightarrow> R \<subseteq> T \<Longrightarrow> N \<subseteq> P \<union> T"
  by blast

lemma parse_rest_values:
  assumes "parse ts = Inr (r, n)"
  shows "tok_value ` set r \<subseteq> tok_value ` set ts"
  using parse_rest_subset[OF assms] by (rule image_mono)

lemma parse_operators_tokens:
  "\<forall>r n. parse ts = Inr (r, n) \<longrightarrow> operators n \<subseteq> {} \<union> tok_value ` set ts"
  "\<forall>r n. parse_operands v us = Inr (r, n) \<longrightarrow> operators n \<subseteq> operators v \<union> tok_value ` set us"
  "\<forall>r ns. parse_params ps ws = Inr (r, ns) \<longrightarrow>
     (\<Union>p\<in>set ns. operators p) \<subseteq> (\<Union>p\<in>set ps. operators p) \<union> tok_value ` set ws"
proof (induct ts and v us and ps ws rule: parse_parse_operands_parse_params.induct)
  case 1
  show ?case by simp
next
  case (2 tok tokens)
  show ?case
  proof (intro allI impI)
    fix r n
    assume res: "parse (tok # tokens) = Inr (r, n)"
    have mono: "tok_value ` set tokens \<subseteq> tok_value ` set (tok # tokens)" by auto
    consider (ident) "tok_type tok = IDENT" | (number) "tok_type tok = NUMBER"
      | (lparen) "tok_type tok = LPAREN" | (lcurly) "tok_type tok = LCURLY"
      | (other) "tok_type tok \<notin> {IDENT, NUMBER, LPAREN, LCURLY}"
      by auto
    then show "operators n \<subseteq> {} \<union> tok_value ` set (tok # tokens)"
    proof cases
      case ident
      with res have "n = Node_VARIABLE (tok_value tok)" by simp
      then show ?thesis by simp
    next
      case number
      with res obtain x where "n = Node_NUMBER x" by (auto split: option.splits)
      then show ?thesis by simp
    next
      case lparen
      with res obtain r1 v1 where p1: "parse tokens = Inr (r1, v1)"
        and p2: "parse_operands v1 r1 = Inr (r, n)"
        by (auto split: sum.splits)
      from "2.hyps"(1) lparen p1 have a: "operators v1 \<subseteq> {} \<union> tok_value ` set tokens" by simp
      from "2.hyps"(2)[OF _ _ lparen p1 refl] lparen p2
      have b: "operators n \<subseteq> operators v1 \<union> tok_value ` set r1" by simp
      have "operators n \<subseteq> {} \<union> tok_value ` set tokens"
        using b a parse_rest_values[OF p1] by (rule subset_via)
      with mono show ?thesis by blast
    next
      case lcurly
      with res obtain fn toks params where t: "tokens = fn # toks"
        and p: "parse_params [] toks = Inr (r, params)" and n: "n = Node_CALL (tok_value fn) params"
        by (auto split: list.splits sum.splits)
      from "2.hyps"(3)[OF _ _ _ lcurly t] lcurly p
      have "(\<Union>p\<in>set params. operators p) \<subseteq> tok_value ` set toks" by simp
      moreover have "tok_value ` set toks \<subseteq> tok_value ` set (tok # tokens)" using t by auto
      ultimately have "(\<Union>p\<in>set params. operators p) \<subseteq> tok_value ` set (tok # tokens)"
        by (rule subset_trans)
      with n show ?thesis by simp
    next
      case other
      with res show ?thesis by auto
    qed
  qed
next
  case (3 val)
  show ?case by simp
next
  case (4 val tok tokens)
  show ?case
  proof (intro allI impI)
    fix r n
    assume res: "parse_operands val (tok # tokens) = Inr (r, n)"
    show "operators n \<subseteq> operators val \<union> tok_value ` set (tok # tokens)"
    proof (cases "tok_type tok = RPAREN")
      case True
      with res have "n = val" by simp
      then show ?thesis by blast
    next
      case False
      with res obtain r1 right where p1: "parse tokens = Inr (r1, right)"
        and p2: "parse_operands (Node_EXPR (tok_value tok) val right) r1 = Inr (r, n)"
        by (auto split: sum.splits)
      from "4.hyps"(1) False p1 have a: "operators right \<subseteq> {} \<union> tok_value ` set tokens" by simp
      from "4.hyps"(2)[OF False p1 refl] p2
      have b: "operators n \<subseteq> operators (Node_EXPR (tok_value tok) val right) \<union> tok_value ` set r1"
        by simp
      have m: "operators (Node_EXPR (tok_value tok) val right)
          \<subseteq> operators val \<union> tok_value ` set (tok # tokens)"
        using a by auto
      have r: "tok_value ` set r1 \<subseteq> tok_value ` set (tok # tokens)"
        using parse_rest_values[OF p1] by auto
      from b m r show ?thesis by (rule subset_via)
    qed
  qed
next
  case (5 params)
  show ?case by simp
next
  case (6 params tok tokens)
  show ?case
  proof (intro allI impI)
    fix r ns
    assume res: "parse_params params (tok # tokens) = Inr (r, ns)"
    show "(\<Union>p\<in>set ns. operators p) \<subseteq> (\<Union>p\<in>set params. operators p) \<union> tok_value ` set (tok # tokens)"
    proof (cases "tok_type tok = RCURLY")
      case True
      with res have "ns = params" by simp
      then show ?thesis by blast
    next
      case False
      with res obtain r1 param where p1: "parse (tok # tokens) = Inr (r1, param)"
        and p2: "parse_params (params @ [param]) r1 = Inr (r, ns)"
        by (auto split: sum.splits)
      from "6.hyps"(1) False p1 have a: "operators param \<subseteq> {} \<union> tok_value ` set (tok # tokens)"
        by simp
      from "6.hyps"(2)[OF False p1 refl] p2
      have b: "(\<Union>p\<in>set ns. operators p) \<subseteq>
          (\<Union>p\<in>set (params @ [param]). operators p) \<union> tok_value ` set r1"
        by simp
      have "(\<Union>p\<in>set (params @ [param]). operators p) =
          (\<Union>p\<in>set params. operators p) \<union> operators param"
        by auto
      with a have m: "(\<Union>p\<in>set (params @ [param]). operators p)
          \<subseteq> (\<Union>p\<in>set params. operators p) \<union> tok_value ` set (tok # tokens)"
        by blast
      from b m parse_rest_values[OF p1] show ?thesis by (rule subset_via)
    qed
  qed
qed

text \<open>
  C2, as the code has it. When a text tokenizes and parses, and evaluating the tree
  raises the unknown-operator error for \<open>op\<close>, then \<open>op\<close> stands in an \<^verbatim>\<open>EXPR\<close>
  node of the tree, is none of \<^verbatim>\<open>+ - * / ^\<close>, and is the value of a token of the
  text. So a tree whose operators are among the five never raises it.
\<close>

theorem unknown_operator_from_tree:
  assumes "funs = functions_noannotate L \<or> funs = functions_main L"
    and "tokenize src = Inr tokens" and "parse tokens = Inr (rest, ast)"
    and "eval_text L funs src variables = Inl (SyntaxError_unknown_operator op)"
  shows "op \<in> operators ast \<and> op \<notin> evaluated_operators \<and> op \<in> tok_value ` set tokens"
proof -
  from assms(2-4) have "eval_node L funs ast variables = Inl (SyntaxError_unknown_operator op)"
    by (simp add: eval_text_def)
  from eval_unknown_operator(1)[OF assms(1) this]
  have "op \<in> operators ast" "op \<notin> evaluated_operators" by simp_all
  moreover from parse_operators_tokens(1)[of tokens] assms(3)
  have "operators ast \<subseteq> {} \<union> tok_value ` set tokens" by simp
  ultimately show ?thesis by auto
qed


theorem unknown_operator_from_tree_witness:
  "tokenize ''(1 = 2)'' =
     Inr [Token LPAREN ''('', Token NUMBER ''1'', Token OPERATOR ''='', Token NUMBER ''2'',
          Token RPAREN '')''] \<and>
   parse [Token LPAREN ''('', Token NUMBER ''1'', Token OPERATOR ''='', Token NUMBER ''2'',
          Token RPAREN '')''] = Inr ([], Node_EXPR ''='' (Node_NUMBER 1) (Node_NUMBER 2)) \<and>
   eval_text exact_lib (functions_noannotate exact_lib) ''(1 = 2)'' Map.empty =
     Inl (SyntaxError_unknown_operator ''='') \<and>
   ''='' \<in> operators (Node_EXPR ''='' (Node_NUMBER 1) (Node_NUMBER 2)) \<and>
   ''='' \<notin> evaluated_operators"
proof -
  have t: "tokenize ''(1 = 2)'' =
     Inr [Token LPAREN ''('', Token NUMBER ''1'', Token OPERATOR ''='', Token NUMBER ''2'',
          Token RPAREN '')'']"
    by (simp add: tokenize_simps)
  have p: "parse [Token LPAREN ''('', Token NUMBER ''1'', Token OPERATOR ''='', Token NUMBER ''2'',
          Token RPAREN '')''] = Inr ([], Node_EXPR ''='' (Node_NUMBER 1) (Node_NUMBER 2))"
    by (simp add: py_float_simps)
  have e: "eval_text exact_lib (functions_noannotate exact_lib) ''(1 = 2)'' Map.empty =
     Inl (SyntaxError_unknown_operator ''='')"
    by (simp add: eval_text_def tokenize_simps py_float_simps)
  from unknown_operator_from_tree[OF _ t p e] t p e show ?thesis by simp
qed

text \<open>
  The claim as written fails on \<^verbatim>\<open>(1 = 2)\<close>: the tokenizer makes \<^verbatim>\<open>=\<close> an
  \<^verbatim>\<open>OPERATOR\<close> token, the parser builds the node, and the evaluator has no branch
  for it.
\<close>

theorem unknown_operator_counterexample:
  "tokenize ''(1 = 2)'' =
     Inr [Token LPAREN ''('', Token NUMBER ''1'', Token OPERATOR ''='', Token NUMBER ''2'',
          Token RPAREN '')''] \<and>
   parse [Token LPAREN ''('', Token NUMBER ''1'', Token OPERATOR ''='', Token NUMBER ''2'',
          Token RPAREN '')''] = Inr ([], Node_EXPR ''='' (Node_NUMBER 1) (Node_NUMBER 2)) \<and>
   eval_node exact_lib (functions_noannotate exact_lib)
     (Node_EXPR ''='' (Node_NUMBER 1) (Node_NUMBER 2)) Map.empty =
     Inl (SyntaxError_unknown_operator ''='')"
  by (simp add: tokenize_simps py_float_simps)

section \<open>Groups fold to the left\<close>

text \<open>
  The operand loop on a whole group: given the tree so far and the remaining pairs of
  an operator token and an operand, each operand a token sequence that parses to its
  tree whatever follows it, the loop returns the left fold of the pairs.
\<close>

lemma parse_operands_fold:
  assumes "\<forall>(op, ts, n)\<in>set groups. tok_type op \<noteq> RPAREN \<and> (\<forall>r. parse (ts @ r) = Inr (r, n))"
  shows "parse_operands val (concat (map (\<lambda>(op, ts, n). op # ts) groups) @ Token RPAREN '')'' # rest) =
     Inr (rest, foldl (\<lambda>acc (op, ts, n). Node_EXPR (tok_value op) acc n) val groups)"
  using assms
proof (induction groups arbitrary: val)
  case Nil
  show ?case by simp
next
  case (Cons g groups)
  obtain op ts n where g: "g = (op, ts, n)" by (cases g)
  from Cons.prems g have op: "tok_type op \<noteq> RPAREN"
    and operand: "\<And>r. parse (ts @ r) = Inr (r, n)"
    and others: "\<forall>(op, ts, n)\<in>set groups. tok_type op \<noteq> RPAREN \<and> (\<forall>r. parse (ts @ r) = Inr (r, n))"
    by auto
  let ?tail = "concat (map (\<lambda>(op, ts, n). op # ts) groups) @ Token RPAREN '')'' # rest"
  have "parse_operands val (op # ts @ ?tail) =
      parse_operands (Node_EXPR (tok_value op) val n) ?tail"
    using op operand[of ?tail] by (simp del: parse.simps)
  also have "\<dots> = Inr (rest, foldl (\<lambda>acc (op, ts, n). Node_EXPR (tok_value op) acc n)
      (Node_EXPR (tok_value op) val n) groups)"
    using others by (rule Cons.IH)
  finally show ?case using g by simp
qed

text \<open>
  C1. The text \<^verbatim>\<open>(2 + 3 * 4)\<close> evaluates to 20 under empty bindings, not to 14: its
  tree is \<^verbatim>\<open>*\<close> over (\<^verbatim>\<open>+\<close> of 2 and 3) and 4. In general a group of a first operand
  and any number of operator and operand pairs parses to the left fold of the pairs
  over the first operand, whatever the operators are: a chain that leans to the left.
\<close>

theorem left_fold_no_precedence:
  "eval_text L funs ''(2 + 3 * 4)'' Map.empty = Inr 20 \<and>
   eval_text L funs ''(2 + 3 * 4)'' Map.empty \<noteq> Inr 14 \<and>
   tokenize ''(2 + 3 * 4)'' =
     Inr [Token LPAREN ''('', Token NUMBER ''2'', Token OPERATOR ''+'', Token NUMBER ''3'',
          Token OPERATOR ''*'', Token NUMBER ''4'', Token RPAREN '')''] \<and>
   parse [Token LPAREN ''('', Token NUMBER ''2'', Token OPERATOR ''+'', Token NUMBER ''3'',
          Token OPERATOR ''*'', Token NUMBER ''4'', Token RPAREN '')''] =
     Inr ([], Node_EXPR ''*'' (Node_EXPR ''+'' (Node_NUMBER 2) (Node_NUMBER 3)) (Node_NUMBER 4)) \<and>
   ((\<forall>r. parse (ts0 @ r) = Inr (r, first)) \<and>
    (\<forall>(op, ts, n)\<in>set groups. tok_type op \<noteq> RPAREN \<and> (\<forall>r. parse (ts @ r) = Inr (r, n))) \<longrightarrow>
      parse (Token LPAREN ''('' # ts0 @ concat (map (\<lambda>(op, ts, n). op # ts) groups) @
             Token RPAREN '')'' # rest) =
        Inr (rest, foldl (\<lambda>acc (op, ts, n). Node_EXPR (tok_value op) acc n) first groups))"
proof -
  have e: "eval_text L funs ''(2 + 3 * 4)'' Map.empty = Inr 20"
    by (simp add: eval_text_def tokenize_simps py_float_simps)
  have t: "tokenize ''(2 + 3 * 4)'' =
     Inr [Token LPAREN ''('', Token NUMBER ''2'', Token OPERATOR ''+'', Token NUMBER ''3'',
          Token OPERATOR ''*'', Token NUMBER ''4'', Token RPAREN '')'']"
    by (simp add: tokenize_simps)
  have p: "parse [Token LPAREN ''('', Token NUMBER ''2'', Token OPERATOR ''+'', Token NUMBER ''3'',
          Token OPERATOR ''*'', Token NUMBER ''4'', Token RPAREN '')''] =
     Inr ([], Node_EXPR ''*'' (Node_EXPR ''+'' (Node_NUMBER 2) (Node_NUMBER 3)) (Node_NUMBER 4))"
    by (simp add: py_float_simps)
  have g: "parse (Token LPAREN ''('' # ts0 @ concat (map (\<lambda>(op, ts, n). op # ts) groups) @
             Token RPAREN '')'' # rest) =
        Inr (rest, foldl (\<lambda>acc (op, ts, n). Node_EXPR (tok_value op) acc n) first groups)"
    if first: "\<forall>r. parse (ts0 @ r) = Inr (r, first)"
      and groups: "\<forall>(op, ts, n)\<in>set groups. tok_type op \<noteq> RPAREN \<and> (\<forall>r. parse (ts @ r) = Inr (r, n))"
  proof -
    let ?tail = "concat (map (\<lambda>(op, ts, n). op # ts) groups) @ Token RPAREN '')'' # rest"
    from first have "parse (ts0 @ ?tail) = Inr (?tail, first)" by blast
    then have "parse (Token LPAREN ''('' # ts0 @ ?tail) = parse_operands first ?tail"
      by simp
    with parse_operands_fold[OF groups] show ?thesis by simp
  qed
  from e t p g show ?thesis by simp
qed

theorem left_fold_no_precedence_witness:
  "eval_text exact_lib (functions_noannotate exact_lib) ''(2 + 3 * 4)'' Map.empty = Inr 20 \<and>
   parse (Token LPAREN ''('' # [Token IDENT ''a''] @
          concat (map (\<lambda>(op, ts, n). op # ts)
            [(Token OPERATOR ''+'', [Token IDENT ''b''], Node_VARIABLE ''b''),
             (Token OPERATOR ''*'', [Token IDENT ''c''], Node_VARIABLE ''c''),
             (Token OPERATOR ''-'', [Token IDENT ''d''], Node_VARIABLE ''d'')]) @
          Token RPAREN '')'' # []) =
     Inr ([], Node_EXPR ''-'' (Node_EXPR ''*'' (Node_EXPR ''+'' (Node_VARIABLE ''a'')
            (Node_VARIABLE ''b'')) (Node_VARIABLE ''c'')) (Node_VARIABLE ''d''))"
  using left_fold_no_precedence[of exact_lib "functions_noannotate exact_lib"
      "[Token IDENT ''a'']" "Node_VARIABLE ''a''"
      "[(Token OPERATOR ''+'', [Token IDENT ''b''], Node_VARIABLE ''b''),
        (Token OPERATOR ''*'', [Token IDENT ''c''], Node_VARIABLE ''c''),
        (Token OPERATOR ''-'', [Token IDENT ''d''], Node_VARIABLE ''d'')]" "[]"]
  by simp

end
